theory Spec2Isabelle
  imports Main
begin

section \<open>Go integers, durations and instants\<close>

text \<open>
  On the platforms the program is built for (Linux on amd64 and arm64) Go's \<^verbatim>\<open>int\<close> is
  a 64-bit signed integer, as \<^verbatim>\<open>time.Duration\<close> is everywhere (it counts nanoseconds).
  Both are modelled as \<^typ>\<open>int\<close> with the two's-complement wrap-around written out
  wherever the source multiplies or increments.  An instant (\<^verbatim>\<open>time.Time\<close>) is the
  number of nanoseconds since the Unix epoch.
\<close>

type_synonym Duration = int
type_synonym Time = int

definition wrap64 :: "int \<Rightarrow> int" where
  "wrap64 x = (x + 9223372036854775808) mod 18446744073709551616 - 9223372036854775808"

definition minDuration :: Duration where
  "minDuration = - 9223372036854775808"

definition maxDuration :: Duration where
  "maxDuration = 9223372036854775807"

text \<open>\<^verbatim>\<open>time.Duration(n) * time.Second\<close> for a Go \<^verbatim>\<open>int\<close> \<open>n\<close>.\<close>

definition seconds :: "int \<Rightarrow> Duration" where
  "seconds n = wrap64 (n * 1000000000)"

text \<open>
  \<^verbatim>\<open>t.Sub(u)\<close>: the difference of two instants, saturated at the largest and the
  smallest duration.  \<^verbatim>\<open>time.Since(t)\<close> is \<^verbatim>\<open>time.Now().Sub(t)\<close> and
  \<^verbatim>\<open>time.Until(t)\<close> is \<^verbatim>\<open>t.Sub(time.Now())\<close>; the reading of the clock is an argument.
\<close>

definition time_Sub :: "Time \<Rightarrow> Time \<Rightarrow> Duration" where
  "time_Sub t u =
     (if t - u > maxDuration then maxDuration
      else if t - u < minDuration then minDuration
      else t - u)"

definition time_Since :: "Time \<Rightarrow> Time \<Rightarrow> Duration" where
  "time_Since now t = time_Sub now t"

definition time_Until :: "Time \<Rightarrow> Time \<Rightarrow> Duration" where
  "time_Until now t = time_Sub t now"

text \<open>Go's integer division truncates towards zero.\<close>

definition go_div :: "int \<Rightarrow> int \<Rightarrow> int" where
  "go_div a b = sgn a * sgn b * (\<bar>a\<bar> div \<bar>b\<bar>)"

text \<open>
  The functions of Go's \<^verbatim>\<open>time\<close> package that read and write text are parameters of
  the model: \<^verbatim>\<open>time.Parse(time.RFC3339, s)\<close>, \<^verbatim>\<open>t.UTC().Format(time.RFC3339)\<close> and
  \<^verbatim>\<open>time.Parse(time.RFC1123, s)\<close>.  A parse error is \<open>None\<close>.
\<close>

record timelib =
  Parse_RFC3339 :: "string \<Rightarrow> Time option"
  Format_RFC3339 :: "Time \<Rightarrow> string"
  Parse_RFC1123 :: "string \<Rightarrow> Time option"

text \<open>
  The RFC 3339 layout has no fractional seconds: formatting an instant keeps its whole
  seconds only.
\<close>

definition trunc_second :: "Time \<Rightarrow> Time" where
  "trunc_second t = t - t mod 1000000000"


section \<open>The state store\<close>

text \<open>
  The three relations of the schema.  A relation with a primary key is a list of
  (key, row) pairs in insertion order.  \<^verbatim>\<open>last_error\<close> is a nullable TEXT column (the
  source reads it into \<^verbatim>\<open>sql.NullString\<close> and tests it with \<^verbatim>\<open>IS NULL\<close>): \<open>None\<close> is
  SQL NULL.  The other columns have the Go types the source scans them into.
  A handle that has been closed (\<^verbatim>\<open>WarmDB.Close\<close>) fails every statement.
\<close>

record warmed_row =
  last_warmed_utc :: string
  last_status :: int
  last_error :: "string option"
  warmed_count :: int

record sitemap_row =
  last_fetched_utc :: string
  sitemap_last_error :: "string option"

record WarmDB =
  closed :: bool
  meta :: "(string \<times> string) list"
  warmed_url :: "(string \<times> warmed_row) list"
  sitemap_seen :: "(string \<times> sitemap_row) list"

datatype db_error = ErrClosed

definition emptyDB :: WarmDB where
  "emptyDB = \<lparr>closed = False, meta = [], warmed_url = [], sitemap_seen = []\<rparr>"

text \<open>
  \<^verbatim>\<open>INSERT ... ON CONFLICT(k) DO UPDATE SET v=excluded.v\<close> on a keyed relation, and
  \<^verbatim>\<open>UPDATE ... WHERE key = ?\<close>.
\<close>

fun upsert :: "'k \<Rightarrow> 'v \<Rightarrow> ('k \<times> 'v) list \<Rightarrow> ('k \<times> 'v) list" where
  "upsert k v [] = [(k, v)]"
| "upsert k v ((k', v') # rows) =
     (if k' = k then (k, v) # rows else (k', v') # upsert k v rows)"

definition update_where :: "'k \<Rightarrow> ('v \<Rightarrow> 'v) \<Rightarrow> ('k \<times> 'v) list \<Rightarrow> ('k \<times> 'v) list" where
  "update_where k f rows = map (\<lambda>(k', v). if k' = k then (k', f v) else (k', v)) rows"

definition GetLastFlush :: "timelib \<Rightarrow> WarmDB \<Rightarrow> db_error + Time option" where
  "GetLastFlush L w =
     (if closed w then Inl ErrClosed
      else case map_of (meta w) ''last_flush_utc'' of
             None \<Rightarrow> Inr None
           | Some v \<Rightarrow>
               (case Parse_RFC3339 L v of
                  None \<Rightarrow> Inr None
                | Some t \<Rightarrow> Inr (Some t)))"

definition MarkFlush :: "timelib \<Rightarrow> Time \<Rightarrow> WarmDB \<Rightarrow> string \<Rightarrow> db_error + WarmDB" where
  "MarkFlush L now w reason =
     (let now_s = Format_RFC3339 L now in
      if closed w then Inl ErrClosed
      else
        let w1 = w\<lparr>meta := upsert ''last_flush_utc'' now_s (meta w)\<rparr> in
        if reason \<noteq> [] then Inr (w1\<lparr>meta := upsert ''last_flush_reason'' reason (meta w1)\<rparr>)
        else Inr w1)"

definition ShouldWarm :: "timelib \<Rightarrow> Time \<Rightarrow> WarmDB \<Rightarrow> string \<Rightarrow> Duration \<Rightarrow> db_error + bool" where
  "ShouldWarm L now w url rewarmAfter =
     (case GetLastFlush L w of
        Inl err \<Rightarrow> Inl err
      | Inr lastFlush \<Rightarrow>
          (case map_of (warmed_url w) url of
             None \<Rightarrow> Inr True
           | Some row \<Rightarrow>
               (case Parse_RFC3339 L (last_warmed_utc row) of
                  None \<Rightarrow> Inr True
                | Some lastWarmed \<Rightarrow>
                    if (case lastFlush of None \<Rightarrow> False | Some f \<Rightarrow> lastWarmed < f)
                    then Inr True
                    else Inr (time_Since now lastWarmed \<ge> rewarmAfter))))"

definition MarkWarmed ::
  "timelib \<Rightarrow> Time \<Rightarrow> WarmDB \<Rightarrow> string \<Rightarrow> int \<Rightarrow> string \<Rightarrow> db_error + WarmDB" where
  "MarkWarmed L now w url status errorMsg =
     (let now_s = Format_RFC3339 L now in
      if closed w then Inl ErrClosed
      else case map_of (warmed_url w) url of
             None \<Rightarrow>
               Inr (w\<lparr>warmed_url := warmed_url w @
                      [(url, \<lparr>last_warmed_utc = now_s, last_status = status,
                              last_error = Some errorMsg, warmed_count = 1\<rparr>)]\<rparr>)
           | Some _ \<Rightarrow>
               Inr (w\<lparr>warmed_url :=
                      update_where url
                        (\<lambda>r. r\<lparr>last_warmed_utc := now_s, last_status := status,
                                last_error := Some errorMsg,
                                warmed_count := warmed_count r + 1\<rparr>)
                        (warmed_url w)\<rparr>))"

definition MarkSitemap :: "timelib \<Rightarrow> Time \<Rightarrow> WarmDB \<Rightarrow> string \<Rightarrow> string \<Rightarrow> db_error + WarmDB" where
  "MarkSitemap L now w sitemapURL errorMsg =
     (let now_s = Format_RFC3339 L now in
      if closed w then Inl ErrClosed
      else case map_of (sitemap_seen w) sitemapURL of
             None \<Rightarrow>
               Inr (w\<lparr>sitemap_seen := sitemap_seen w @
                      [(sitemapURL, \<lparr>last_fetched_utc = now_s,
                                     sitemap_last_error = Some errorMsg\<rparr>)]\<rparr>)
           | Some _ \<Rightarrow>
               Inr (w\<lparr>sitemap_seen :=
                      update_where sitemapURL
                        (\<lambda>r. r\<lparr>last_fetched_utc := now_s, sitemap_last_error := Some errorMsg\<rparr>)
                        (sitemap_seen w)\<rparr>))"

text \<open>The HTTP status constants of the source.\<close>

definition httpStatusOK :: int where "httpStatusOK = 200"
definition httpStatusClientErr :: int where "httpStatusClientErr = 400"
definition httpStatusSuccessMax :: int where "httpStatusSuccessMax = 399"
definition httpStatusTooMany :: int where "httpStatusTooMany = 429"

record Stats =
  WarmedTotal :: int
  OKTotal :: int
  ErrTotal :: int
  LastFlushUTC :: string

text \<open>
  The three \<^verbatim>\<open>SELECT COUNT(*)\<close> queries of \<^verbatim>\<open>WarmDB.Stats\<close>, with their \<^verbatim>\<open>WHERE\<close>
  clauses as predicates on a row.
\<close>

definition IS_NULL :: "'a option \<Rightarrow> bool" where
  "IS_NULL x = (x = None)"

definition IS_NOT_NULL :: "'a option \<Rightarrow> bool" where
  "IS_NOT_NULL x = (x \<noteq> None)"

definition ok_row :: "warmed_row \<Rightarrow> bool" where
  "ok_row r = (IS_NULL (last_error r) \<and>
               httpStatusOK \<le> last_status r \<and> last_status r \<le> httpStatusSuccessMax)"

definition err_row :: "warmed_row \<Rightarrow> bool" where
  "err_row r = (IS_NOT_NULL (last_error r) \<or> last_status r \<ge> httpStatusClientErr \<or>
                last_status r = 0)"

definition count_where :: "('v \<Rightarrow> bool) \<Rightarrow> ('k \<times> 'v) list \<Rightarrow> int" where
  "count_where P rows = int (length (filter (\<lambda>(k, v). P v) rows))"

definition WarmDB_Stats :: "timelib \<Rightarrow> WarmDB \<Rightarrow> db_error + Stats" where
  "WarmDB_Stats L w =
     (if closed w then Inl ErrClosed
      else case GetLastFlush L w of
             Inl err \<Rightarrow> Inl err
           | Inr lastFlush \<Rightarrow>
               Inr \<lparr>WarmedTotal = int (length (warmed_url w)),
                    OKTotal = count_where ok_row (warmed_url w),
                    ErrTotal = count_where err_row (warmed_url w),
                    LastFlushUTC = (case lastFlush of None \<Rightarrow> [] | Some t \<Rightarrow> Format_RFC3339 L t)\<rparr>)"

text \<open>
  The orchestrator records each outcome with \<^verbatim>\<open>c.db.MarkWarmed(u, status, errMsg)\<close> and
  drops the returned error: a failed write leaves the store as it was.
\<close>

definition record_outcome :: "timelib \<Rightarrow> WarmDB \<Rightarrow> Time \<times> string \<times> int \<times> string \<Rightarrow> WarmDB" where
  "record_outcome L w c =
     (case c of (now, url, status, errorMsg) \<Rightarrow>
        (case MarkWarmed L now w url status errorMsg of Inl _ \<Rightarrow> w | Inr w' \<Rightarrow> w'))"

definition record_outcomes :: "timelib \<Rightarrow> WarmDB \<Rightarrow> (Time \<times> string \<times> int \<times> string) list \<Rightarrow> WarmDB" where
  "record_outcomes L w cs = foldl (record_outcome L) w cs"

section \<open>Strings\<close>

text \<open>
  A Go string is a sequence of bytes.  \<^verbatim>\<open>strings.TrimSpace\<close> removes the leading and
  the trailing white space as Unicode defines it: the six ASCII characters of
  \<^verbatim>\<open>asciiSpace\<close>, and the code points U+0085, U+00A0, U+1680, U+2000 to U+200A, U+2028,
  U+2029, U+202F, U+205F and U+3000, which are listed here by their UTF-8 encodings.
  A byte that starts no such encoding is no white space.
\<close>

definition asciiSpace :: "char \<Rightarrow> bool" where
  "asciiSpace c =
     (c = CHR 0x09 \<or> c = CHR 0x0A \<or> c = CHR 0x0B \<or> c = CHR 0x0C \<or> c = CHR 0x0D \<or> c = CHR 0x20)"

definition unicodeSpace :: "string list" where
  "unicodeSpace =
     [[CHR 0xC2, CHR 0x85], [CHR 0xC2, CHR 0xA0], [CHR 0xE1, CHR 0x9A, CHR 0x80],
      [CHR 0xE2, CHR 0x80, CHR 0x80], [CHR 0xE2, CHR 0x80, CHR 0x81],
      [CHR 0xE2, CHR 0x80, CHR 0x82], [CHR 0xE2, CHR 0x80, CHR 0x83],
      [CHR 0xE2, CHR 0x80, CHR 0x84], [CHR 0xE2, CHR 0x80, CHR 0x85],
      [CHR 0xE2, CHR 0x80, CHR 0x86], [CHR 0xE2, CHR 0x80, CHR 0x87],
      [CHR 0xE2, CHR 0x80, CHR 0x88], [CHR 0xE2, CHR 0x80, CHR 0x89],
      [CHR 0xE2, CHR 0x80, CHR 0x8A], [CHR 0xE2, CHR 0x80, CHR 0xA8],
      [CHR 0xE2, CHR 0x80, CHR 0xA9], [CHR 0xE2, CHR 0x80, CHR 0xAF],
      [CHR 0xE2, CHR 0x81, CHR 0x9F], [CHR 0xE3, CHR 0x80, CHR 0x80]]"

text \<open>
  The number of bytes of the white-space character that \<open>s\<close> starts with (0 when it
  starts with none); \<open>tbl\<close> lists the multi-byte encodings.
\<close>

definition space_len :: "string list \<Rightarrow> string \<Rightarrow> nat" where
  "space_len tbl s =
     (case s of
        [] \<Rightarrow> 0
      | c # _ \<Rightarrow>
          if asciiSpace c then 1
          else (case find (\<lambda>p. p \<noteq> [] \<and> take (length p) s = p) tbl of
                  None \<Rightarrow> 0
                | Some p \<Rightarrow> length p))"

function trim_left :: "string list \<Rightarrow> string \<Rightarrow> string" where
  "trim_left tbl s = (if space_len tbl s = 0 then s else trim_left tbl (drop (space_len tbl s) s))"
  by pat_completeness auto
termination
  by (relation "measure (\<lambda>(tbl, s). length s)") (auto simp: space_len_def split: list.splits)

text \<open>The trailing white space is the leading white space of the reversed string.\<close>

definition TrimSpace :: "string \<Rightarrow> string" where
  "TrimSpace s = rev (trim_left (map rev unicodeSpace) (rev (trim_left unicodeSpace s)))"

text \<open>
  \<^verbatim>\<open>strconv.Atoi\<close>: an optional sign and one or more decimal digits, within the range
  of a 64-bit \<^verbatim>\<open>int\<close>; anything else is an error (\<open>None\<close>).
\<close>

definition is_digit :: "char \<Rightarrow> bool" where
  "is_digit c = (48 \<le> (of_char c :: nat) \<and> (of_char c :: nat) \<le> 57)"

definition digits_val :: "string \<Rightarrow> int" where
  "digits_val ds = foldl (\<lambda>n c. n * 10 + (of_char c - 48)) 0 ds"

definition Atoi :: "string \<Rightarrow> int option" where
  "Atoi s =
     (case s of
        [] \<Rightarrow> None
      | c # cs \<Rightarrow>
          let neg = (c = CHR ''-'');
              ds = (if c = CHR ''-'' \<or> c = CHR ''+'' then cs else s)
          in if ds = [] \<or> \<not> list_all is_digit ds then None
             else
               let v = digits_val ds
               in if neg then (if v \<le> 9223372036854775808 then Some (- v) else None)
                  else (if v \<le> 9223372036854775807 then Some v else None))"

section \<open>Sitemap parsing\<close>

text \<open>
  The structures \<^verbatim>\<open>encoding/xml\<close> decodes into.  The decoder itself is a parameter:
  \<^verbatim>\<open>xml.Unmarshal(data, &idx)\<close> for a \<^verbatim>\<open>SitemapIndexRoot\<close> and \<^verbatim>\<open>xml.Unmarshal(data, &urlset)\<close>
  for a \<^verbatim>\<open>Sitemap\<close>, each giving the decoded value or an error.  The decoder copies
  the character data of a \<^verbatim>\<open><loc>\<close> element into the string field as it stands.
\<close>

record SitemapURL =
  url_Loc :: string

record SitemapIndex =
  sitemap_Loc :: string

record Sitemap =
  URLs :: "SitemapURL list"
  Sitemap :: "SitemapIndex list"

record SitemapIndexRoot =
  Sitemaps :: "SitemapIndex list"

datatype xml_error = XMLSyntaxError

record xmllib =
  Unmarshal_SitemapIndexRoot :: "string \<Rightarrow> xml_error + SitemapIndexRoot"
  Unmarshal_Sitemap :: "string \<Rightarrow> xml_error + Sitemap"

text \<open>
  The loop \<^verbatim>\<open>for _, s := range xs { if s.Loc != "" { out = append(out, strings.TrimSpace(s.Loc)) } }\<close>.
\<close>

definition append_locs :: "('a \<Rightarrow> string) \<Rightarrow> string list \<Rightarrow> 'a list \<Rightarrow> string list" where
  "append_locs loc out xs =
     foldl (\<lambda>acc x. if loc x \<noteq> [] then acc @ [TrimSpace (loc x)] else acc) out xs"

definition parseSitemapXML :: "xmllib \<Rightarrow> string \<Rightarrow> string list \<times> string list \<times> xml_error option" where
  "parseSitemapXML X data =
     (let childSitemaps = [];
          urls = [];
          childSitemaps =
            (case Unmarshal_SitemapIndexRoot X data of
               Inr idx \<Rightarrow>
                 if length (Sitemaps idx) > 0
                 then append_locs sitemap_Loc childSitemaps (Sitemaps idx)
                 else childSitemaps
             | Inl _ \<Rightarrow> childSitemaps)
      in case Unmarshal_Sitemap X data of
           Inr urlset \<Rightarrow>
             (append_locs sitemap_Loc childSitemaps (Sitemap urlset),
              append_locs url_Loc urls (URLs urlset),
              None)
         | Inl _ \<Rightarrow> (childSitemaps, urls, None))"


section \<open>The adaptive rate limiter\<close>

text \<open>
  The fields of \<^verbatim>\<open>rateLimiter\<close> that its lock protects.  The mutex and the condition
  variable serialise the operations; each operation is a function from the state
  before to the state after, and the clock reading is an argument.
\<close>

record rateLimiter =
  currentConcurrency :: int
  minConcurrency :: int
  maxConcurrency :: int
  activeWorkers :: int
  cooldownUntil :: Time
  consecutiveOK :: int
  recoverAfter :: int
  cooldownSeconds :: int

text \<open>The zero \<^verbatim>\<open>time.Time\<close>: 1 January of year 1, 00:00:00 UTC.\<close>

definition zeroTime :: Time where
  "zeroTime = - 62135596800000000000"

definition newRateLimiter :: "int \<Rightarrow> int \<Rightarrow> int \<Rightarrow> rateLimiter" where
  "newRateLimiter concurrency cooldownSec recoverAft =
     \<lparr>currentConcurrency = concurrency,
      minConcurrency = 1,
      maxConcurrency = concurrency,
      activeWorkers = 0,
      cooldownUntil = zeroTime,
      consecutiveOK = 0,
      recoverAfter = recoverAft,
      cooldownSeconds = cooldownSec\<rparr>"

definition release :: "rateLimiter \<Rightarrow> rateLimiter" where
  "release rl = rl\<lparr>activeWorkers := wrap64 (activeWorkers rl - 1)\<rparr>"

definition on429 :: "Time \<Rightarrow> Duration \<Rightarrow> rateLimiter \<Rightarrow> rateLimiter" where
  "on429 now retryAfter rl =
     (let newConcurrency = go_div (currentConcurrency rl) 2;
          newConcurrency =
            (if newConcurrency < minConcurrency rl then minConcurrency rl else newConcurrency);
          cooldown = retryAfter;
          cooldown =
            (if cooldown < seconds (cooldownSeconds rl) then seconds (cooldownSeconds rl)
             else cooldown)
      in rl\<lparr>currentConcurrency := newConcurrency,
            consecutiveOK := 0,
            cooldownUntil := now + cooldown\<rparr>)"

definition onSuccess :: "rateLimiter \<Rightarrow> rateLimiter" where
  "onSuccess rl =
     (let rl1 = rl\<lparr>consecutiveOK := wrap64 (consecutiveOK rl + 1)\<rparr>
      in if consecutiveOK rl1 \<ge> recoverAfter rl1 \<and> currentConcurrency rl1 < maxConcurrency rl1
         then rl1\<lparr>currentConcurrency := wrap64 (currentConcurrency rl1 + 1),
                  consecutiveOK := 0\<rparr>
         else rl1)"

text \<open>A history of limiter events, each 429 with its clock reading and its hint.\<close>

datatype limiter_call = On429 Time Duration | OnSuccess

fun limiter_step :: "rateLimiter \<Rightarrow> limiter_call \<Rightarrow> rateLimiter" where
  "limiter_step rl (On429 now retryAfter) = on429 now retryAfter rl"
| "limiter_step rl OnSuccess = onSuccess rl"

definition limiter_run :: "rateLimiter \<Rightarrow> limiter_call list \<Rightarrow> rateLimiter" where
  "limiter_run rl calls = foldl limiter_step rl calls"

fun is_On429 :: "limiter_call \<Rightarrow> bool" where
  "is_On429 (On429 _ _) = True"
| "is_On429 OnSuccess = False"

definition parseRetryAfter :: "timelib \<Rightarrow> Time \<Rightarrow> string \<Rightarrow> int \<Rightarrow> Duration" where
  "parseRetryAfter L now hdr defaultSec =
     (let hdr = TrimSpace hdr in
      if hdr = [] then seconds defaultSec
      else
        (case (case Atoi hdr of Some sec \<Rightarrow> if sec \<ge> 0 then Some (seconds sec) else None
                              | None \<Rightarrow> None) of
           Some d \<Rightarrow> d
         | None \<Rightarrow>
             (case (case Parse_RFC1123 L hdr of
                      Some t \<Rightarrow> let d = time_Until now t in if d > 0 then Some d else None
                    | None \<Rightarrow> None) of
                Some d \<Rightarrow> d
              | None \<Rightarrow> seconds defaultSec)))"

section \<open>The sitemap collector\<close>

text \<open>
  What lies outside the program is a parameter.  Each answer may depend on how many
  fetches the run has made so far, which stands for the passing of time:
  \<^verbatim>\<open>fetchBytes\<close> (the retrying HTTP GET, with gzip decoding) gives an error message or
  the body, \<open>ctx_done\<close> tells whether the context has been cancelled, \<open>clock\<close> reads
  \<^verbatim>\<open>time.Now()\<close>.
\<close>

record world =
  fetchBytes :: "nat \<Rightarrow> string \<Rightarrow> string + string"
  ctx_done :: "nat \<Rightarrow> bool"
  clock :: "nat \<Rightarrow> Time"

text \<open>
  The fields of \<^verbatim>\<open>CacheWarmer\<close> the collector works on: the visited set
  \<^verbatim>\<open>seenSitemaps\<close> and the store.  \<open>fetched\<close> is a log kept for the proofs: one entry for
  each call of \<^verbatim>\<open>fetchBytes\<close>, with the URL and the visited set as it stands when the
  call is made.
\<close>

record CacheWarmer =
  seenSitemaps :: "string set"
  db :: WarmDB
  fetched :: "(string \<times> string set) list"

definition ctx_Err :: string where
  "ctx_Err = ''context canceled''"

text \<open>\<^verbatim>\<open>c.db.MarkSitemap(sitemapURL, msg)\<close>, whose error the collector drops.\<close>

definition mark_sitemap :: "timelib \<Rightarrow> Time \<Rightarrow> CacheWarmer \<Rightarrow> string \<Rightarrow> string \<Rightarrow> CacheWarmer" where
  "mark_sitemap L now c sitemapURL errorMsg =
     (case MarkSitemap L now (db c) sitemapURL errorMsg of
        Inl _ \<Rightarrow> c
      | Inr w \<Rightarrow> c\<lparr>db := w\<rparr>)"

text \<open>
  The recursion may not end (a server can answer every fetch with a sitemap index that
  names a new child), so the function takes fuel, which bounds the depth of the
  recursion; \<open>None\<close> means that the fuel ran out.  A result is the pair the source
  returns, the URLs and the error (\<open>None\<close> for \<^verbatim>\<open>nil\<close>), with the state after.
  \<open>collect_children\<close> is the loop over \<^verbatim>\<open>childSitemaps\<close>.
\<close>

fun collectURLsFromSitemap ::
    "nat \<Rightarrow> timelib \<Rightarrow> xmllib \<Rightarrow> world \<Rightarrow> CacheWarmer \<Rightarrow> string \<Rightarrow>
       ((string list \<times> string option) \<times> CacheWarmer) option"
  and collect_children ::
    "nat \<Rightarrow> timelib \<Rightarrow> xmllib \<Rightarrow> world \<Rightarrow> CacheWarmer \<Rightarrow> string list \<Rightarrow> string list \<Rightarrow>
       ((string list \<times> string option) \<times> CacheWarmer) option"
where
  "collectURLsFromSitemap 0 L X W c sitemapURL = None"
| "collectURLsFromSitemap (Suc n) L X W c sitemapURL =
     (if sitemapURL \<in> seenSitemaps c then Some (([], None), c)
      else
        let c1 = c\<lparr>seenSitemaps := insert sitemapURL (seenSitemaps c)\<rparr>;
            k = length (fetched c1);
            c2 = c1\<lparr>fetched := fetched c1 @ [(sitemapURL, seenSitemaps c1)]\<rparr>
        in case fetchBytes W k sitemapURL of
             Inl err \<Rightarrow> Some (([], Some err), mark_sitemap L (clock W (Suc k)) c2 sitemapURL err)
           | Inr data \<Rightarrow>
               (case parseSitemapXML X data of
                  (childSitemaps, urls, Some XMLSyntaxError) \<Rightarrow>
                    Some (([], Some ''XML syntax error''),
                          mark_sitemap L (clock W (Suc k)) c2 sitemapURL ''XML syntax error'')
                | (childSitemaps, urls, None) \<Rightarrow>
                    collect_children n L X W
                      (mark_sitemap L (clock W (Suc k)) c2 sitemapURL []) childSitemaps urls))"
| "collect_children n L X W c [] collected = Some ((collected, None), c)"
| "collect_children n L X W c (child # rest) collected =
     (if ctx_done W (length (fetched c)) then Some ((collected, Some ctx_Err), c)
      else
        case collectURLsFromSitemap n L X W c child of
          None \<Rightarrow> None
        | Some ((childURLs, Some err), c') \<Rightarrow> collect_children n L X W c' rest collected
        | Some ((childURLs, None), c') \<Rightarrow> collect_children n L X W c' rest (collected @ childURLs))"

text \<open>
  The first phase of \<^verbatim>\<open>runOnce\<close>: the visited set is reset, then every configured seed
  is collected in turn; the URLs of a seed are kept also when it reports an error.
  A cancelled context ends the run (\<open>Inl\<close>).
\<close>

fun collect_seeds ::
    "nat \<Rightarrow> timelib \<Rightarrow> xmllib \<Rightarrow> world \<Rightarrow> CacheWarmer \<Rightarrow> string list \<Rightarrow> string list \<Rightarrow>
       ((string + string list) \<times> CacheWarmer) option" where
  "collect_seeds n L X W c [] allURLs = Some (Inr allURLs, c)"
| "collect_seeds n L X W c (sm # rest) allURLs =
     (if ctx_done W (length (fetched c)) then Some (Inl ctx_Err, c)
      else
        case collectURLsFromSitemap n L X W c sm of
          None \<Rightarrow> None
        | Some ((urls, err), c') \<Rightarrow> collect_seeds n L X W c' rest (allURLs @ urls))"

definition runOnce_collect ::
    "nat \<Rightarrow> timelib \<Rightarrow> xmllib \<Rightarrow> world \<Rightarrow> WarmDB \<Rightarrow> string list \<Rightarrow>
       ((string + string list) \<times> CacheWarmer) option" where
  "runOnce_collect n L X W w seeds =
     collect_seeds n L X W \<lparr>seenSitemaps = {}, db = w, fetched = []\<rparr> seeds []"

section \<open>Invariants\<close>

text \<open>
  Properties of a state that the operations keep.  On the store: every row of
  \<^verbatim>\<open>warmed_url\<close> has \<^verbatim>\<open>warmed_count >= 1\<close>; every row has a \<^verbatim>\<open>last_error\<close> that is not NULL.
\<close>

definition counts_ok :: "WarmDB \<Rightarrow> bool" where
  "counts_ok w = list_all (\<lambda>(url, row). 1 \<le> warmed_count row) (warmed_url w)"

definition errors_not_null :: "WarmDB \<Rightarrow> bool" where
  "errors_not_null w = list_all (\<lambda>(url, row). IS_NOT_NULL (last_error row)) (warmed_url w)"

text \<open>
  On the limiter built for a configured concurrency \<open>c\<close>: the bounds are 1 and \<open>c\<close>,
  and the current cap lies between them.
\<close>

definition limiter_inv :: "int \<Rightarrow> rateLimiter \<Rightarrow> bool" where
  "limiter_inv c rl =
     (minConcurrency rl = 1 \<and> maxConcurrency rl = c \<and>
      1 \<le> currentConcurrency rl \<and> currentConcurrency rl \<le> c)"

text \<open>
  On the collector: no URL has been fetched twice, every URL was in the visited set when
  its fetch was made, and every fetched URL is in the visited set now.
\<close>

definition fetch_log_ok :: "CacheWarmer \<Rightarrow> bool" where
  "fetch_log_ok c =
     (distinct (map fst (fetched c)) \<and>
      list_all (\<lambda>(u, visited). u \<in> visited) (fetched c) \<and>
      fst ` set (fetched c) \<subseteq> seenSitemaps c)"

text \<open>
  What a call of the collector leaves behind: the visited set has grown by at least
  \<open>new\<close>, and the log is still in order.
\<close>

definition grows :: "string set \<Rightarrow> CacheWarmer \<Rightarrow> CacheWarmer \<Rightarrow> bool" where
  "grows new c c' =
     (seenSitemaps c \<union> new \<subseteq> seenSitemaps c' \<and> (fetch_log_ok c \<longrightarrow> fetch_log_ok c'))"


section \<open>Concrete inputs for the examples\<close>

text \<open>
  The examples run the model on concrete inputs.  For them the library parameters are
  tables of what Go's functions give on the texts and instants that occur: RFC 3339
  and RFC 1123 texts with their Unix times in seconds, and XML documents with the
  structures they decode into.  On every other text the tables report a
  parse error.
\<close>

definition ex_rfc3339 :: "(string \<times> int) list" where
  "ex_rfc3339 =
     [(''2024-01-01T10:00:00Z'', 1704103200),
      (''2024-01-01T10:00:01Z'', 1704103201),
      (''2024-01-01T10:00:05Z'', 1704103205),
      (''2024-01-02T10:00:00Z'', 1704189600)]"

definition ex_rfc1123 :: "(string \<times> int) list" where
  "ex_rfc1123 =
     [(''Mon, 01 Jan 2024 10:00:30 GMT'', 1704103230),
      (''Mon, 01 Jan 2024 09:00:00 GMT'', 1704099600)]"

definition ex_timelib :: timelib where
  "ex_timelib =
     \<lparr>Parse_RFC3339 = (\<lambda>s. map_option (\<lambda>n. n * 1000000000) (map_of ex_rfc3339 s)),
      Format_RFC3339 =
        (\<lambda>t. case map_of (map (\<lambda>(s, n). (n, s)) ex_rfc3339) (t div 1000000000) of
                None \<Rightarrow> []
              | Some s \<Rightarrow> s),
      Parse_RFC1123 = (\<lambda>s. map_option (\<lambda>n. n * 1000000000) (map_of ex_rfc1123 s))\<rparr>"

definition ex_index_doc :: string where
  "ex_index_doc =
     ''<sitemapindex><sitemap><loc>https://x/b.xml</loc></sitemap><sitemap><loc>https://x/a.xml</loc></sitemap></sitemapindex>''"

definition ex_urlset_doc :: string where
  "ex_urlset_doc =
     ''<urlset><url><loc> https://x/1 </loc></url><sitemap><loc>https://x/a.xml</loc></sitemap></urlset>''"

definition ex_blank_loc_doc :: string where
  "ex_blank_loc_doc = ''<urlset><url><loc> </loc></url><url><loc>https://x/1</loc></url></urlset>''"

definition ex_xmllib :: xmllib where
  "ex_xmllib =
     \<lparr>Unmarshal_SitemapIndexRoot =
        (\<lambda>data. if data = ex_index_doc
                 then Inr \<lparr>Sitemaps = [\<lparr>sitemap_Loc = ''https://x/b.xml''\<rparr>,
                                       \<lparr>sitemap_Loc = ''https://x/a.xml''\<rparr>]\<rparr>
                 else Inl XMLSyntaxError),
      Unmarshal_Sitemap =
        (\<lambda>data. if data = ex_urlset_doc
                 then Inr \<lparr>URLs = [\<lparr>url_Loc = '' https://x/1 ''\<rparr>],
                           Sitemap = [\<lparr>sitemap_Loc = ''https://x/a.xml''\<rparr>]\<rparr>
                 else if data = ex_blank_loc_doc
                 then Inr \<lparr>URLs = [\<lparr>url_Loc = '' ''\<rparr>, \<lparr>url_Loc = ''https://x/1''\<rparr>],
                           Sitemap = []\<rparr>
                 else Inl XMLSyntaxError)\<rparr>"

text \<open>
  A site of two sitemaps that name each other: the index \<^verbatim>\<open>a.xml\<close> lists \<^verbatim>\<open>b.xml\<close> and
  itself, the URL set \<^verbatim>\<open>b.xml\<close> lists one page and \<^verbatim>\<open>a.xml\<close>.  Every other URL
  answers 404.
\<close>

definition ex_world :: world where
  "ex_world =
     \<lparr>fetchBytes =
        (\<lambda>k u. if u = ''https://x/a.xml'' then Inr ex_index_doc
                else if u = ''https://x/b.xml'' then Inr ex_urlset_doc
                else Inl ''HTTP 404''),
      ctx_done = (\<lambda>k. False),
      clock = (\<lambda>k. 1704103200000000000)\<rparr>"

text \<open>
  Stores for the examples.  \<open>ex_store\<close> is the store after one URL has been warmed with
  success at 10:00:00.2 on 1 January 2024.  The others differ from it in one place: a
  flush marked in the same second (at 10:00:00.5), a flush marked in the next second
  (at 10:00:01.5), a flush marker that is no RFC 3339 text, and a warm time that is no
  RFC 3339 text.
\<close>

definition ex_row :: warmed_row where
  "ex_row = \<lparr>last_warmed_utc = ''2024-01-01T10:00:00Z'', last_status = 200,
             last_error = Some [], warmed_count = 1\<rparr>"

definition ex_store :: WarmDB where
  "ex_store = \<lparr>closed = False, meta = [], warmed_url = [(''https://x/a'', ex_row)],
               sitemap_seen = []\<rparr>"

definition ex_store_flushed_same_second :: WarmDB where
  "ex_store_flushed_same_second =
     ex_store\<lparr>meta := [(''last_flush_utc'', ''2024-01-01T10:00:00Z''),
                       (''last_flush_reason'', ''test'')]\<rparr>"

definition ex_store_flushed_later :: WarmDB where
  "ex_store_flushed_later =
     ex_store\<lparr>meta := [(''last_flush_utc'', ''2024-01-01T10:00:01Z''),
                       (''last_flush_reason'', ''test'')]\<rparr>"

definition ex_store_bad_flush :: WarmDB where
  "ex_store_bad_flush = ex_store\<lparr>meta := [(''last_flush_utc'', ''yesterday'')]\<rparr>"

definition ex_store_bad_warm :: WarmDB where
  "ex_store_bad_warm =
     ex_store\<lparr>warmed_url := [(''https://x/a'', ex_row\<lparr>last_warmed_utc := ''never''\<rparr>)]\<rparr>"

text \<open>A collector state in which one sitemap has been visited and fetched.\<close>

definition ex_visited :: CacheWarmer where
  "ex_visited =
     \<lparr>seenSitemaps = {''https://x/a.xml''}, db = emptyDB,
      fetched = [(''https://x/a.xml'', {''https://x/a.xml''})]\<rparr>"


section \<open>Auxiliary facts\<close>

subsection \<open>Keyed relations\<close>

lemma map_of_upsert:
  "map_of (upsert k v rows) k' = (if k' = k then Some v else map_of rows k')"
  by (induction rows) auto

lemma map_of_update_where:
  "map_of (update_where k f rows) k' =
     (if k' = k then map_option f (map_of rows k) else map_of rows k')"
  by (induction rows) (auto simp: update_where_def)

lemma map_of_append_fresh:
  "map_of rows k = None \<Longrightarrow>
   map_of (rows @ [(k, v)]) k' = (if k' = k then Some v else map_of rows k')"
  by (induction rows) auto

lemma list_all_update_where:
  "list_all (\<lambda>(k, v). P v) rows \<Longrightarrow> (\<And>v. P v \<Longrightarrow> P (f v)) \<Longrightarrow>
   list_all (\<lambda>(k, v). P v) (update_where k0 f rows)"
  by (induction rows) (auto simp: update_where_def split: if_splits)

lemma map_of_drop_key:
  "map_of (filter (\<lambda>(k', v). k' \<noteq> k) rows) k' = (if k' = k then None else map_of rows k')"
  by (induction rows) auto

subsection \<open>Durations\<close>

text \<open>
  A count of seconds becomes the same count of nanoseconds as long as the product fits
  into 64 bits, that is up to 9223372036 seconds (about 292 years) either way.
\<close>

lemma seconds_exact:
  "- 9223372036 \<le> n \<Longrightarrow> n \<le> 9223372036 \<Longrightarrow> seconds n = n * 1000000000"
  by (simp add: seconds_def wrap64_def)

lemma wrap64_id: "- 9223372036854775808 \<le> x \<Longrightarrow> x \<le> 9223372036854775807 \<Longrightarrow> wrap64 x = x"
  by (simp add: wrap64_def)

lemma go_div_nonneg: "0 \<le> a \<Longrightarrow> go_div a 2 = a div 2"
  by (cases "a = 0") (simp_all add: go_div_def)

lemma time_Since_ge_iff:
  assumes "minDuration < I" and "I \<le> maxDuration"
  shows "(time_Since now t \<ge> I) = (now - t \<ge> I)"
  using assms by (auto simp: time_Since_def time_Sub_def)

lemma time_Until_future: "now < t \<Longrightarrow> time_Until now t = min (t - now) maxDuration"
  by (auto simp: time_Until_def time_Sub_def minDuration_def maxDuration_def)

lemma time_Until_pos_iff: "(0 < time_Until now t) = (now < t)"
  by (auto simp: time_Until_def time_Sub_def minDuration_def maxDuration_def)


section \<open>The state store: recorded outcomes and statistics\<close>

text \<open>The example store is the one that recording one success on the empty store gives.\<close>

lemma ex_store_recorded:
  "MarkWarmed ex_timelib 1704103200200000000 emptyDB ''https://x/a'' 200 [] = Inr ex_store"
  by code_simp

lemma MarkWarmed_counts_ok:
  assumes "counts_ok w" and "MarkWarmed L now w url st e = Inr w'"
  shows "counts_ok w'"
proof (cases "map_of (warmed_url w) url")
  case None
  with assms show ?thesis
    by (auto simp: MarkWarmed_def counts_ok_def Let_def split: if_splits)
next
  case (Some r)
  with assms show ?thesis
    by (auto simp: MarkWarmed_def counts_ok_def Let_def split: if_splits
             intro!: list_all_update_where)
qed

lemma record_outcome_counts_ok: "counts_ok w \<Longrightarrow> counts_ok (record_outcome L w c)"
  by (auto simp: record_outcome_def split: prod.splits sum.splits dest: MarkWarmed_counts_ok)

lemma record_outcomes_counts_ok: "counts_ok w \<Longrightarrow> counts_ok (record_outcomes L w cs)"
  unfolding record_outcomes_def
  by (induction cs arbitrary: w) (auto simp: record_outcome_counts_ok)

lemma MarkWarmed_count:
  assumes "\<not> closed w"
  shows "\<exists>w'. MarkWarmed L now w url status errorMsg = Inr w' \<and>
           map_option warmed_count (map_of (warmed_url w') url) =
             Some (case map_of (warmed_url w) url of None \<Rightarrow> 1 | Some r \<Rightarrow> warmed_count r + 1) \<and>
           (\<forall>u. u \<noteq> url \<longrightarrow> map_of (warmed_url w') u = map_of (warmed_url w) u)"
  using assms
  by (auto simp: MarkWarmed_def Let_def map_of_update_where map_of_append_fresh
           simp del: map_of_append split: option.splits)

text \<open>
  Claim C4.  \<^verbatim>\<open>MarkWarmed\<close> is an upsert on an open store: the row of the URL has
  \<^verbatim>\<open>warmed_count\<close> 1 when there was no row before and the old count plus 1 when there was
  one, and no other row changes.  Hence \<^verbatim>\<open>warmed_count >= 1\<close> in every row is kept by
  every sequence of recorded outcomes, and holds after every such sequence on the empty
  store.
\<close>

theorem MarkWarmed_upsert_count:
  "(\<not> closed w \<longrightarrow>
     (\<exists>w'. MarkWarmed L now w url status errorMsg = Inr w' \<and>
        map_option warmed_count (map_of (warmed_url w') url) =
          Some (case map_of (warmed_url w) url of None \<Rightarrow> 1 | Some r \<Rightarrow> warmed_count r + 1) \<and>
        (\<forall>u. u \<noteq> url \<longrightarrow> map_of (warmed_url w') u = map_of (warmed_url w) u))) \<and>
   (counts_ok w \<longrightarrow> counts_ok (record_outcomes L w calls)) \<and>
   counts_ok (record_outcomes L emptyDB calls)"
proof -
  have "counts_ok emptyDB" by (simp add: counts_ok_def emptyDB_def)
  then show ?thesis
    using MarkWarmed_count [of w L now url status errorMsg] record_outcomes_counts_ok
    by blast
qed

theorem MarkWarmed_upsert_count_witness:
  "\<not> closed ex_store \<and> counts_ok ex_store \<and>
   map_option warmed_count (map_of (warmed_url ex_store) ''https://x/a'') = Some 1 \<and>
   (\<exists>w'. MarkWarmed ex_timelib 1704103205000000000 ex_store ''https://x/a'' 404 ''HTTP 404'' = Inr w' \<and>
         map_option warmed_count (map_of (warmed_url w') ''https://x/a'') = Some 2) \<and>
   (\<exists>w'. MarkWarmed ex_timelib 1704103205000000000 ex_store ''https://x/b'' 200 [] = Inr w' \<and>
         map_option warmed_count (map_of (warmed_url w') ''https://x/b'') = Some 1) \<and>
   counts_ok (record_outcomes ex_timelib ex_store
                [(1704103205000000000, ''https://x/a'', 404, ''HTTP 404''),
                 (1704103205000000000, ''https://x/b'', 200, [])])"
proof -
  have h1: "\<not> closed ex_store" by code_simp
  have h2: "counts_ok ex_store" by code_simp
  have a: "map_of (warmed_url ex_store) ''https://x/a'' = Some ex_row" by code_simp
  have a': "warmed_count ex_row = 1" by code_simp
  have b: "map_of (warmed_url ex_store) ''https://x/b'' = None" by code_simp
  note T = MarkWarmed_upsert_count [of ex_store ex_timelib 1704103205000000000]
  from T [of "''https://x/a''" 404 "''HTTP 404''" "[]"] h1 a a'
  have c1: "\<exists>w'. MarkWarmed ex_timelib 1704103205000000000 ex_store ''https://x/a'' 404 ''HTTP 404'' = Inr w' \<and>
         map_option warmed_count (map_of (warmed_url w') ''https://x/a'') = Some 2"
    by auto
  from T [of "''https://x/b''" 200 "[]" "[]"] h1 b
  have c2: "\<exists>w'. MarkWarmed ex_timelib 1704103205000000000 ex_store ''https://x/b'' 200 [] = Inr w' \<and>
         map_option warmed_count (map_of (warmed_url w') ''https://x/b'') = Some 1"
    by auto
  from T [of _ _ _ "[(1704103205000000000, ''https://x/a'', 404, ''HTTP 404''),
                 (1704103205000000000, ''https://x/b'', 200, [])]"] h2
  have c3: "counts_ok (record_outcomes ex_timelib ex_store
                [(1704103205000000000, ''https://x/a'', 404, ''HTTP 404''),
                 (1704103205000000000, ''https://x/b'', 200, [])])" by blast
  show ?thesis using h1 h2 a a' c1 c2 c3 by simp
qed

text \<open>
  \<^verbatim>\<open>MarkWarmed\<close> binds the Go string \<^verbatim>\<open>errorMsg\<close> to the column \<^verbatim>\<open>last_error\<close>; a Go string
  is never NULL, and the empty string is stored as an empty TEXT.  So every row the
  program writes has a \<^verbatim>\<open>last_error\<close> that is not NULL.
\<close>

lemma MarkWarmed_errors_not_null:
  assumes "errors_not_null w" and "MarkWarmed L now w url st e = Inr w'"
  shows "errors_not_null w'"
proof (cases "map_of (warmed_url w) url")
  case None
  with assms show ?thesis
    by (auto simp: MarkWarmed_def errors_not_null_def IS_NOT_NULL_def Let_def split: if_splits)
next
  case (Some r)
  with assms show ?thesis
    by (auto simp: MarkWarmed_def errors_not_null_def IS_NOT_NULL_def Let_def split: if_splits
             intro!: list_all_update_where)
qed

lemma MarkWarmed_closed:
  "MarkWarmed L now w url st e = Inr w' \<Longrightarrow> closed w' = closed w"
  by (auto simp: MarkWarmed_def Let_def split: if_splits option.splits)

lemma record_outcomes_errors_not_null:
  "errors_not_null w \<Longrightarrow> errors_not_null (record_outcomes L w cs)"
  unfolding record_outcomes_def
  by (induction cs arbitrary: w)
     (auto simp: record_outcome_def split: prod.splits sum.splits dest: MarkWarmed_errors_not_null)

lemma record_outcomes_closed:
  "closed (record_outcomes L w cs) = closed w"
  unfolding record_outcomes_def
  by (induction cs arbitrary: w)
     (auto simp: record_outcome_def split: prod.splits sum.splits dest: MarkWarmed_closed)

lemma count_ok_zero:
  "list_all (\<lambda>(url, row). IS_NOT_NULL (last_error row)) rows \<Longrightarrow> count_where ok_row rows = 0"
  by (induction rows) (auto simp: count_where_def ok_row_def IS_NULL_def IS_NOT_NULL_def)

lemma count_err_all:
  "list_all (\<lambda>(url, row). IS_NOT_NULL (last_error row)) rows \<Longrightarrow>
   count_where err_row rows = int (length rows)"
  by (induction rows) (auto simp: count_where_def err_row_def)

text \<open>
  Whatever outcomes are recorded on an empty store, \<^verbatim>\<open>Stats\<close> counts none of them as
  a success and all of them as failures: the query for \<^verbatim>\<open>OKTotal\<close> asks for
  \<^verbatim>\<open>last_error IS NULL\<close>, and no recorded row has that.
\<close>

lemma Stats_never_counts_recorded_success:
  "\<exists>s. WarmDB_Stats L (record_outcomes L emptyDB calls) = Inr s \<and>
       OKTotal s = 0 \<and> ErrTotal s = WarmedTotal s"
proof -
  let ?w = "record_outcomes L emptyDB calls"
  have "errors_not_null emptyDB" by (simp add: errors_not_null_def emptyDB_def)
  then have e: "errors_not_null ?w" by (rule record_outcomes_errors_not_null)
  have c: "\<not> closed ?w" by (simp add: record_outcomes_closed emptyDB_def)
  then obtain lf where "GetLastFlush L ?w = Inr lf"
    by (cases "GetLastFlush L ?w") (auto simp: GetLastFlush_def split: option.splits)
  with c e show ?thesis
    by (simp add: WarmDB_Stats_def errors_not_null_def count_ok_zero count_err_all)
qed

text \<open>
  Claim C1.  The claim is that after a run in which every URL is recorded with a 2xx
  status and an empty error message, \<^verbatim>\<open>Stats\<close> gives \<^verbatim>\<open>ok_total\<close> equal to the number of
  URLs and \<^verbatim>\<open>err_total = 0\<close>.  The code does otherwise: for the two URLs of the basic
  scenario, both recorded with status 200 and the empty message, it gives
  \<^verbatim>\<open>WarmedTotal = 2\<close>, \<^verbatim>\<open>OKTotal = 0\<close> and \<^verbatim>\<open>ErrTotal = 2\<close>.
\<close>

theorem Stats_after_basic_warm:
  "WarmDB_Stats ex_timelib
     (record_outcomes ex_timelib emptyDB
        [(1704103200200000000, ''https://x/a'', 200, []),
         (1704103201000000000, ''https://x/b'', 200, [])]) =
   Inr \<lparr>WarmedTotal = 2, OKTotal = 0, ErrTotal = 2, LastFlushUTC = []\<rparr>"
  by code_simp


section \<open>The staleness oracle\<close>

text \<open>
  Claim C2.  On an open store \<^verbatim>\<open>ShouldWarm\<close> answers true when the URL has no row;
  true when the stored \<^verbatim>\<open>last_warmed_utc\<close> does not parse; true when a last flush is
  known and the stored time is earlier than it; and otherwise exactly when
  \<^verbatim>\<open>time.Since\<close> of the stored time is at least the rewarm interval.  For every
  interval above the smallest duration, that comparison is the one between the
  interval and the exact difference of now and the stored time.
\<close>

theorem ShouldWarm_cases:
  assumes "\<not> closed w"
  shows "(map_of (warmed_url w) url = None \<longrightarrow> ShouldWarm L now w url I = Inr True) \<and>
         (\<forall>row. map_of (warmed_url w) url = Some row \<and>
                Parse_RFC3339 L (last_warmed_utc row) = None \<longrightarrow>
                ShouldWarm L now w url I = Inr True) \<and>
         (\<forall>row lw f. map_of (warmed_url w) url = Some row \<and>
                Parse_RFC3339 L (last_warmed_utc row) = Some lw \<and>
                GetLastFlush L w = Inr (Some f) \<and> lw < f \<longrightarrow>
                ShouldWarm L now w url I = Inr True) \<and>
         (\<forall>row lw. map_of (warmed_url w) url = Some row \<and>
                Parse_RFC3339 L (last_warmed_utc row) = Some lw \<and>
                \<not> (\<exists>f. GetLastFlush L w = Inr (Some f) \<and> lw < f) \<longrightarrow>
                ShouldWarm L now w url I = Inr (time_Since now lw \<ge> I)) \<and>
         (\<forall>lw. minDuration < I \<and> I \<le> maxDuration \<longrightarrow>
                (time_Since now lw \<ge> I) = (now - lw \<ge> I))"
proof -
  have "\<exists>lf. GetLastFlush L w = Inr lf"
    using assms by (simp add: GetLastFlush_def split: option.splits)
  then obtain lf where lf: "GetLastFlush L w = Inr lf" ..
  have cases: "ShouldWarm L now w url I =
      (case map_of (warmed_url w) url of
         None \<Rightarrow> Inr True
       | Some row \<Rightarrow>
           (case Parse_RFC3339 L (last_warmed_utc row) of
              None \<Rightarrow> Inr True
            | Some lw \<Rightarrow>
                if (case lf of None \<Rightarrow> False | Some f \<Rightarrow> lw < f) then Inr True
                else Inr (time_Since now lw \<ge> I)))"
    by (simp add: ShouldWarm_def lf)
  have since: "\<forall>lw. minDuration < I \<and> I \<le> maxDuration \<longrightarrow>
                (time_Since now lw \<ge> I) = (now - lw \<ge> I)"
    by (simp add: time_Since_ge_iff)
  show ?thesis
    using since by (cases lf) (auto simp: cases lf)
qed

theorem ShouldWarm_cases_witness:
  "\<not> closed ex_store \<and> \<not> closed ex_store_bad_warm \<and> \<not> closed ex_store_flushed_later \<and>
   minDuration < 86400000000000 \<and> 86400000000000 \<le> maxDuration \<and>
   ShouldWarm ex_timelib 1704189600000000000 ex_store ''https://x/b'' 86400000000000 = Inr True \<and>
   ShouldWarm ex_timelib 1704103205000000000 ex_store_bad_warm ''https://x/a'' 86400000000000 = Inr True \<and>
   ShouldWarm ex_timelib 1704103205000000000 ex_store_flushed_later ''https://x/a'' 86400000000000 = Inr True \<and>
   ShouldWarm ex_timelib 1704189600000000000 ex_store ''https://x/a'' 86400000000000 = Inr True \<and>
   ShouldWarm ex_timelib 1704103205000000000 ex_store ''https://x/a'' 86400000000000 = Inr False"
proof -
  have h1: "\<not> closed ex_store" by code_simp
  have h1': "\<not> closed ex_store_bad_warm" by code_simp
  have h1'': "\<not> closed ex_store_flushed_later" by code_simp
  have h2: "minDuration < 86400000000000" by (simp add: minDuration_def)
  have h3: "(86400000000000 :: int) \<le> maxDuration" by (simp add: maxDuration_def)
  have absent: "map_of (warmed_url ex_store) ''https://x/b'' = None" by code_simp
  have present: "map_of (warmed_url ex_store) ''https://x/a'' = Some ex_row" by code_simp
  have parsed: "Parse_RFC3339 ex_timelib (last_warmed_utc ex_row) = Some 1704103200000000000"
    by code_simp
  have noflush: "GetLastFlush ex_timelib ex_store = Inr None" by code_simp
  have bad: "map_of (warmed_url ex_store_bad_warm) ''https://x/a'' =
               Some (ex_row\<lparr>last_warmed_utc := ''never''\<rparr>)" by code_simp
  have unparsed: "Parse_RFC3339 ex_timelib (last_warmed_utc (ex_row\<lparr>last_warmed_utc := ''never''\<rparr>)) = None"
    by code_simp
  have present': "map_of (warmed_url ex_store_flushed_later) ''https://x/a'' = Some ex_row"
    by code_simp
  have flush: "GetLastFlush ex_timelib ex_store_flushed_later = Inr (Some 1704103201000000000)"
    by code_simp
  note T = ShouldWarm_cases [of _ _ ex_timelib _ 86400000000000]
  have a: "ShouldWarm ex_timelib 1704189600000000000 ex_store ''https://x/b'' 86400000000000 = Inr True"
    using T [OF h1, of "''https://x/b''" 1704189600000000000] absent by blast
  have b: "ShouldWarm ex_timelib 1704103205000000000 ex_store_bad_warm ''https://x/a'' 86400000000000 = Inr True"
    using T [OF h1', of "''https://x/a''" 1704103205000000000] bad unparsed by blast
  have c: "ShouldWarm ex_timelib 1704103205000000000 ex_store_flushed_later ''https://x/a'' 86400000000000 = Inr True"
    using T [OF h1'', of "''https://x/a''" 1704103205000000000] present' parsed flush by simp
  have d: "ShouldWarm ex_timelib 1704189600000000000 ex_store ''https://x/a'' 86400000000000 = Inr True"
    using T [OF h1, of "''https://x/a''" 1704189600000000000] present parsed noflush h2 h3 by simp
  have e: "ShouldWarm ex_timelib 1704103205000000000 ex_store ''https://x/a'' 86400000000000 = Inr False"
    using T [OF h1, of "''https://x/a''" 1704103205000000000] present parsed noflush h2 h3 by simp
  show ?thesis using h1 h1' h1'' h2 h3 a b c d e by simp
qed

text \<open>
  Claim C10.  When the stored \<^verbatim>\<open>last_flush_utc\<close> is no RFC 3339 text, \<^verbatim>\<open>GetLastFlush\<close>
  returns no time and no error, and \<^verbatim>\<open>ShouldWarm\<close> answers as it does on the store
  without the flush marker: by the rewarm interval alone.
\<close>

theorem GetLastFlush_unparsable:
  assumes "\<not> closed w"
      and "map_of (meta w) ''last_flush_utc'' = Some v"
      and "Parse_RFC3339 L v = None"
  shows "GetLastFlush L w = Inr None \<and>
         ShouldWarm L now w url I =
           ShouldWarm L now (w\<lparr>meta := filter (\<lambda>(k, v). k \<noteq> ''last_flush_utc'') (meta w)\<rparr>) url I \<and>
         ShouldWarm L now w url I =
           Inr (case map_of (warmed_url w) url of
                  None \<Rightarrow> True
                | Some row \<Rightarrow>
                    (case Parse_RFC3339 L (last_warmed_utc row) of
                       None \<Rightarrow> True
                     | Some lastWarmed \<Rightarrow> time_Since now lastWarmed \<ge> I))"
  using assms
  by (auto simp: GetLastFlush_def ShouldWarm_def map_of_drop_key split: option.splits)

theorem GetLastFlush_unparsable_witness:
  "\<not> closed ex_store_bad_flush \<and>
   map_of (meta ex_store_bad_flush) ''last_flush_utc'' = Some ''yesterday'' \<and>
   Parse_RFC3339 ex_timelib ''yesterday'' = None \<and>
   GetLastFlush ex_timelib ex_store_bad_flush = Inr None \<and>
   ShouldWarm ex_timelib 1704103205000000000 ex_store_bad_flush ''https://x/a'' 86400000000000 =
     Inr False"
proof -
  have h1: "\<not> closed ex_store_bad_flush" by code_simp
  have h2: "map_of (meta ex_store_bad_flush) ''last_flush_utc'' = Some ''yesterday''" by code_simp
  have h3: "Parse_RFC3339 ex_timelib ''yesterday'' = None" by code_simp
  have e: "ShouldWarm ex_timelib 1704103205000000000
             (ex_store_bad_flush\<lparr>meta := filter (\<lambda>(k, v). k \<noteq> ''last_flush_utc'')
                                           (meta ex_store_bad_flush)\<rparr>)
             ''https://x/a'' 86400000000000 = Inr False" by code_simp
  from GetLastFlush_unparsable [OF h1 h2 h3, of 1704103205000000000 "''https://x/a''" 86400000000000]
  show ?thesis using h1 h2 h3 e by simp
qed

lemma MarkFlush_result:
  assumes "\<not> closed w"
  shows "\<exists>w'. MarkFlush L T w reason = Inr w' \<and> \<not> closed w' \<and> warmed_url w' = warmed_url w \<and>
           map_of (meta w') ''last_flush_utc'' = Some (Format_RFC3339 L T)"
  using assms by (auto simp: MarkFlush_def Let_def map_of_upsert)

text \<open>
  What the comparison of the stored texts does achieve: after \<^verbatim>\<open>MarkFlush\<close> at time \<open>T\<close> on
  an open store, \<^verbatim>\<open>ShouldWarm\<close> is true for every URL whose stored \<^verbatim>\<open>last_warmed_utc\<close> lies
  in an earlier second than \<open>T\<close>.  The premise on the library says that the text
  \<^verbatim>\<open>MarkFlush\<close> stores reads back as \<open>T\<close> without its fraction of a second.
\<close>

lemma MarkFlush_rewarms_earlier_second:
  assumes "\<not> closed w"
      and "Parse_RFC3339 L (Format_RFC3339 L T) = Some (trunc_second T)"
      and "map_of (warmed_url w) U = Some row"
      and "Parse_RFC3339 L (last_warmed_utc row) = Some lw"
      and "lw < trunc_second T"
  shows "\<exists>w'. MarkFlush L T w reason = Inr w' \<and> ShouldWarm L now w' U I = Inr True"
proof -
  from MarkFlush_result [OF assms(1)] obtain w' where
    w': "MarkFlush L T w reason = Inr w'" "\<not> closed w'" "warmed_url w' = warmed_url w"
        "map_of (meta w') ''last_flush_utc'' = Some (Format_RFC3339 L T)"
    by blast
  have "GetLastFlush L w' = Inr (Some (trunc_second T))"
    using w'(2,4) assms(2) by (simp add: GetLastFlush_def)
  then have "ShouldWarm L now w' U I = Inr True"
    using w'(3) assms(3,4,5) by (simp add: ShouldWarm_def)
  with w'(1) show ?thesis by blast
qed

text \<open>
  Claim C3.  The claim is that after \<^verbatim>\<open>MarkFlush\<close> at time \<open>T\<close>, \<^verbatim>\<open>ShouldWarm\<close> is true, for
  every rewarm interval, for every URL whose stored \<^verbatim>\<open>last_warmed_utc\<close> is earlier than
  \<open>T\<close>.  The code does otherwise when the warm and the flush fall into the same second.
  A URL is warmed at 10:00:00.2, which \<^verbatim>\<open>MarkWarmed\<close> stores as 10:00:00; the cache is
  flushed at 10:00:00.5, which \<^verbatim>\<open>MarkFlush\<close> stores as 10:00:00 too; the stored warm time
  is earlier than the time of the flush, and the flush happened after the warm.  Five
  seconds later \<^verbatim>\<open>ShouldWarm\<close> with an interval of 24 hours answers false: it asks
  whether the stored warm time is strictly before the stored flush time, and the two
  are equal.
\<close>

theorem MarkFlush_same_second_not_rewarmed:
  "MarkWarmed ex_timelib 1704103200200000000 emptyDB ''https://x/a'' 200 [] = Inr ex_store \<and>
   map_of (warmed_url ex_store) ''https://x/a'' = Some ex_row \<and>
   Parse_RFC3339 ex_timelib (last_warmed_utc ex_row) = Some 1704103200000000000 \<and>
   (1704103200000000000 :: Time) < 1704103200500000000 \<and>
   (1704103200200000000 :: Time) < 1704103200500000000 \<and>
   MarkFlush ex_timelib 1704103200500000000 ex_store ''test'' = Inr ex_store_flushed_same_second \<and>
   ShouldWarm ex_timelib 1704103205000000000 ex_store_flushed_same_second ''https://x/a''
     86400000000000 = Inr False"
  by code_simp


section \<open>The rate limiter\<close>

text \<open>
  Claim C5.  For every limiter state, clock reading and hint, \<^verbatim>\<open>on429\<close> sets the cap to
  half the old cap (the quotient of Go's division, which for a cap that is not
  negative is \<open>div 2\<close>), but to \<^verbatim>\<open>minConcurrency\<close> when the half is smaller; it leaves
  \<^verbatim>\<open>minConcurrency\<close>, which \<^verbatim>\<open>newRateLimiter\<close> sets to 1, as it is; it sets
  \<^verbatim>\<open>consecutiveOK\<close> to 0 and \<^verbatim>\<open>cooldownUntil\<close> to now plus the larger of the hint and
  the duration of \<^verbatim>\<open>cooldownSeconds\<close> seconds.  With a hint of 3 seconds the cooldown is
  the larger of 3 seconds and that duration.  The duration of \<^verbatim>\<open>cooldownSeconds\<close> seconds
  is that many times 1000000000 nanoseconds whenever the count is within 9223372036
  either way.
\<close>

theorem on429_effect:
  "currentConcurrency (on429 now hint rl) = max (minConcurrency rl) (go_div (currentConcurrency rl) 2) \<and>
   (0 \<le> currentConcurrency rl \<longrightarrow> go_div (currentConcurrency rl) 2 = currentConcurrency rl div 2) \<and>
   minConcurrency (on429 now hint rl) = minConcurrency rl \<and>
   minConcurrency (newRateLimiter c cs ra) = 1 \<and>
   consecutiveOK (on429 now hint rl) = 0 \<and>
   cooldownUntil (on429 now hint rl) = now + max hint (seconds (cooldownSeconds rl)) \<and>
   cooldownUntil (on429 now (seconds 3) rl) = now + max 3000000000 (seconds (cooldownSeconds rl)) \<and>
   (- 9223372036 \<le> cooldownSeconds rl \<and> cooldownSeconds rl \<le> 9223372036 \<longrightarrow>
      seconds (cooldownSeconds rl) = cooldownSeconds rl * 1000000000)"
proof -
  have s3: "seconds 3 = 3000000000" by (simp add: seconds_exact)
  show ?thesis
    by (simp add: on429_def Let_def newRateLimiter_def max_def s3 seconds_exact go_div_nonneg)
qed

theorem on429_effect_witness:
  "(0::int) \<le> currentConcurrency (newRateLimiter 8 120 50) \<and>
   - 9223372036 \<le> cooldownSeconds (newRateLimiter 8 120 50) \<and>
   cooldownSeconds (newRateLimiter 8 120 50) \<le> 9223372036 \<and>
   currentConcurrency (on429 1704103200000000000 (seconds 3) (newRateLimiter 8 120 50)) = 4 \<and>
   consecutiveOK (on429 1704103200000000000 (seconds 3) (newRateLimiter 8 120 50)) = 0 \<and>
   cooldownUntil (on429 1704103200000000000 (seconds 3) (newRateLimiter 8 120 50)) =
     1704103200000000000 + 120000000000"
  using on429_effect [of 1704103200000000000 "seconds 3" "newRateLimiter 8 120 50" 8 120 50]
  by (simp add: newRateLimiter_def seconds_def wrap64_def)

lemma on429_inv: "limiter_inv c rl \<Longrightarrow> limiter_inv c (on429 now hint rl)"
  by (auto simp: limiter_inv_def on429_def Let_def go_div_nonneg)

lemma onSuccess_inv:
  "c \<le> 9223372036854775807 \<Longrightarrow> limiter_inv c rl \<Longrightarrow> limiter_inv c (onSuccess rl)"
  by (auto simp: limiter_inv_def onSuccess_def Let_def wrap64_id)

lemma limiter_step_inv:
  "c \<le> 9223372036854775807 \<Longrightarrow> limiter_inv c rl \<Longrightarrow> limiter_inv c (limiter_step rl x)"
  by (cases x) (simp_all add: on429_inv onSuccess_inv)

lemma limiter_run_inv:
  "c \<le> 9223372036854775807 \<Longrightarrow> limiter_inv c rl \<Longrightarrow> limiter_inv c (limiter_run rl calls)"
  unfolding limiter_run_def
  by (induction calls arbitrary: rl) (simp_all add: limiter_step_inv)

lemma sustained_429:
  "c \<le> 9223372036854775807 \<Longrightarrow> limiter_inv c rl \<Longrightarrow> list_all is_On429 calls \<Longrightarrow>
   currentConcurrency (limiter_run rl calls) = 1 \<or>
   currentConcurrency (limiter_run rl calls) * 2 ^ length calls \<le> currentConcurrency rl"
proof (induction calls arbitrary: rl)
  case Nil
  then show ?case by (simp add: limiter_run_def)
next
  case (Cons x calls)
  then obtain now hint where x: "x = On429 now hint" by (cases x) auto
  let ?rl1 = "on429 now hint rl"
  let ?r = "currentConcurrency (limiter_run ?rl1 calls)"
  have run: "limiter_run rl (x # calls) = limiter_run ?rl1 calls"
    by (simp add: limiter_run_def x)
  have inv1: "limiter_inv c ?rl1" using Cons.prems(2) by (rule on429_inv)
  have k1: "currentConcurrency ?rl1 = max 1 (currentConcurrency rl div 2)"
    using Cons.prems(2) by (auto simp: limiter_inv_def on429_def Let_def go_div_nonneg)
  have IH: "?r = 1 \<or> ?r * 2 ^ length calls \<le> currentConcurrency ?rl1"
    using Cons.IH [OF Cons.prems(1) inv1] Cons.prems(3) by simp
  have r1: "1 \<le> ?r"
    using limiter_run_inv [OF Cons.prems(1) inv1] by (simp add: limiter_inv_def)
  show ?case
  proof (cases "?r = 1")
    case True
    then show ?thesis by (simp add: run)
  next
    case False
    with IH have le: "?r * 2 ^ length calls \<le> max 1 (currentConcurrency rl div 2)"
      by (simp add: k1)
    from False r1 have "2 \<le> ?r" by simp
    moreover have "(1::int) \<le> 2 ^ length calls" by simp
    ultimately have "2 * 1 \<le> ?r * 2 ^ length calls"
      using r1 by (intro mult_mono) simp_all
    with le have "?r * 2 ^ length calls \<le> currentConcurrency rl div 2" by simp
    then have "?r * 2 ^ length (x # calls) \<le> currentConcurrency rl" by simp
    then show ?thesis by (simp only: run) simp
  qed
qed

text \<open>
  Claim C6.  A limiter built for a concurrency \<open>c\<close> of at least 1 (and, as a Go \<^verbatim>\<open>int\<close>, at
  most \<open>2^63 - 1\<close>) has a cap between 1 and \<open>c\<close> after every sequence of \<^verbatim>\<open>on429\<close> and
  \<^verbatim>\<open>onSuccess\<close> calls, hence after each call of a sequence; and after a sequence of 429s
  alone that is long enough (\<open>c < 2 ^ length calls\<close>) the cap is exactly 1.
\<close>

theorem concurrency_bounds:
  assumes "1 \<le> c" and "c \<le> 9223372036854775807"
  shows "1 \<le> currentConcurrency (limiter_run (newRateLimiter c cs ra) calls) \<and>
         currentConcurrency (limiter_run (newRateLimiter c cs ra) calls) \<le> c \<and>
         (list_all is_On429 calls \<and> c < 2 ^ length calls \<longrightarrow>
            currentConcurrency (limiter_run (newRateLimiter c cs ra) calls) = 1)"
proof -
  let ?r = "currentConcurrency (limiter_run (newRateLimiter c cs ra) calls)"
  have inv0: "limiter_inv c (newRateLimiter c cs ra)"
    using assms(1) by (simp add: limiter_inv_def newRateLimiter_def)
  have inv: "limiter_inv c (limiter_run (newRateLimiter c cs ra) calls)"
    using assms(2) inv0 by (rule limiter_run_inv)
  have "?r = 1" if a: "list_all is_On429 calls" and b: "c < 2 ^ length calls"
  proof (rule ccontr)
    assume n: "?r \<noteq> 1"
    with sustained_429 [OF assms(2) inv0 a]
    have "?r * 2 ^ length calls \<le> c" by (simp add: newRateLimiter_def)
    moreover have "1 \<le> ?r" using inv by (simp add: limiter_inv_def)
    then have "1 * 2 ^ length calls \<le> ?r * 2 ^ length calls"
      by (rule mult_right_mono) simp
    ultimately show False using b by simp
  qed
  with inv show ?thesis by (simp add: limiter_inv_def)
qed

theorem concurrency_bounds_witness:
  "(1::int) \<le> 8 \<and> (8::int) \<le> 9223372036854775807 \<and>
   list_all is_On429 [On429 0 0, On429 1 0, On429 2 0, On429 3 0] \<and>
   (8::int) < 2 ^ length [On429 0 0, On429 1 0, On429 2 0, On429 3 0] \<and>
   currentConcurrency (limiter_run (newRateLimiter 8 120 50)
      [On429 0 0, On429 1 0, On429 2 0, On429 3 0]) = 1 \<and>
   1 \<le> currentConcurrency (limiter_run (newRateLimiter 8 120 2)
      [On429 0 0, OnSuccess, OnSuccess, OnSuccess]) \<and>
   currentConcurrency (limiter_run (newRateLimiter 8 120 2)
      [On429 0 0, OnSuccess, OnSuccess, OnSuccess]) \<le> 8"
proof -
  have h1: "(1::int) \<le> 8" and h2: "(8::int) \<le> 9223372036854775807" by simp_all
  have a: "list_all is_On429 [On429 0 0, On429 1 0, On429 2 0, On429 3 0]" by simp
  have b: "(8::int) < 2 ^ length [On429 0 0, On429 1 0, On429 2 0, On429 3 0]" by simp
  from concurrency_bounds [OF h1 h2, of 120 50 "[On429 0 0, On429 1 0, On429 2 0, On429 3 0]"] a b
  have c1: "currentConcurrency (limiter_run (newRateLimiter 8 120 50)
      [On429 0 0, On429 1 0, On429 2 0, On429 3 0]) = 1" by blast
  from concurrency_bounds [OF h1 h2, of 120 2 "[On429 0 0, OnSuccess, OnSuccess, OnSuccess]"]
  have c2: "1 \<le> currentConcurrency (limiter_run (newRateLimiter 8 120 2)
      [On429 0 0, OnSuccess, OnSuccess, OnSuccess]) \<and>
   currentConcurrency (limiter_run (newRateLimiter 8 120 2)
      [On429 0 0, OnSuccess, OnSuccess, OnSuccess]) \<le> 8" by blast
  show ?thesis using h1 h2 a b c1 c2 by blast
qed

text \<open>
  Claim C7, as stated: a header that is a decimal integer which is not negative yields
  that many seconds.  For the header \<^verbatim>\<open>10000000000\<close> the code yields a negative
  duration: the count of nanoseconds does not fit into 64 bits and wraps around.
\<close>

theorem parseRetryAfter_overflow_counterexample:
  "Atoi (TrimSpace ''10000000000'') = Some 10000000000 \<and>
   parseRetryAfter ex_timelib 1704103200000000000 ''10000000000'' 120 = - 8446744073709551616 \<and>
   parseRetryAfter ex_timelib 1704103200000000000 ''10000000000'' 120 \<noteq> 10000000000 * 1000000000"
  by code_simp

text \<open>
  Claim C7, amended.  With the header trimmed of white space, \<^verbatim>\<open>parseRetryAfter\<close> yields:
  the value in seconds when the header is a decimal integer from 0 to 9223372036; the
  time left until the given instant, but at most the largest duration, when the header
  is no such integer and is an RFC 1123 date after now; and the duration of the
  configured \<^verbatim>\<open>cooldown_seconds\<close> when the header is empty, or is no integer from 0 on
  and is either no RFC 1123 date or a date that is not after now.
\<close>

theorem parseRetryAfter_cases:
  "(TrimSpace hdr = [] \<longrightarrow> parseRetryAfter L now hdr d = seconds d) \<and>
   (\<forall>sec. Atoi (TrimSpace hdr) = Some sec \<and> 0 \<le> sec \<and> sec \<le> 9223372036 \<longrightarrow>
      parseRetryAfter L now hdr d = sec * 1000000000) \<and>
   (\<forall>t. TrimSpace hdr \<noteq> [] \<and> \<not> (\<exists>sec\<ge>0. Atoi (TrimSpace hdr) = Some sec) \<and>
        Parse_RFC1123 L (TrimSpace hdr) = Some t \<and> now < t \<longrightarrow>
      parseRetryAfter L now hdr d = min (t - now) maxDuration) \<and>
   (\<forall>t. \<not> (\<exists>sec\<ge>0. Atoi (TrimSpace hdr) = Some sec) \<and>
        Parse_RFC1123 L (TrimSpace hdr) = Some t \<and> t \<le> now \<longrightarrow>
      parseRetryAfter L now hdr d = seconds d) \<and>
   (\<not> (\<exists>sec\<ge>0. Atoi (TrimSpace hdr) = Some sec) \<and> Parse_RFC1123 L (TrimSpace hdr) = None \<longrightarrow>
      parseRetryAfter L now hdr d = seconds d) \<and>
   (- 9223372036 \<le> d \<and> d \<le> 9223372036 \<longrightarrow> seconds d = d * 1000000000)"
proof -
  have nonempty: "Atoi (TrimSpace hdr) = Some sec \<Longrightarrow> TrimSpace hdr \<noteq> []" for sec
    by (auto simp: Atoi_def)
  have pos: "0 < maxDuration" by (simp add: maxDuration_def)
  show ?thesis
    by (auto simp: parseRetryAfter_def Let_def seconds_exact time_Until_future time_Until_pos_iff pos
             dest: nonempty split: option.splits)
qed

theorem parseRetryAfter_cases_witness:
  "Atoi (TrimSpace '' 3 '') = Some 3 \<and> (0::int) \<le> 3 \<and> (3::int) \<le> 9223372036 \<and>
   parseRetryAfter ex_timelib 1704103200000000000 '' 3 '' 120 = 3000000000 \<and>
   TrimSpace [] = [] \<and>
   - 9223372036 \<le> (120::int) \<and> (120::int) \<le> 9223372036 \<and>
   parseRetryAfter ex_timelib 1704103200000000000 [] 120 = 120000000000 \<and>
   Parse_RFC1123 ex_timelib (TrimSpace ''Mon, 01 Jan 2024 10:00:30 GMT'') = Some 1704103230000000000 \<and>
   parseRetryAfter ex_timelib 1704103200000000000 ''Mon, 01 Jan 2024 10:00:30 GMT'' 120 = 30000000000 \<and>
   Parse_RFC1123 ex_timelib (TrimSpace ''Mon, 01 Jan 2024 09:00:00 GMT'') = Some 1704099600000000000 \<and>
   parseRetryAfter ex_timelib 1704103200000000000 ''Mon, 01 Jan 2024 09:00:00 GMT'' 120 = 120000000000 \<and>
   Atoi (TrimSpace ''-5'') = Some (- 5) \<and> Parse_RFC1123 ex_timelib (TrimSpace ''-5'') = None \<and>
   parseRetryAfter ex_timelib 1704103200000000000 ''-5'' 120 = 120000000000 \<and>
   Atoi (TrimSpace ''soon'') = None \<and> Parse_RFC1123 ex_timelib (TrimSpace ''soon'') = None \<and>
   parseRetryAfter ex_timelib 1704103200000000000 ''soon'' 120 = 120000000000"
proof -
  note T = parseRetryAfter_cases [of _ ex_timelib 1704103200000000000 120]
  have a1: "Atoi (TrimSpace '' 3 '') = Some 3" by code_simp
  have a2: "TrimSpace [] = []" by code_simp
  have a3: "Parse_RFC1123 ex_timelib (TrimSpace ''Mon, 01 Jan 2024 10:00:30 GMT'') = Some 1704103230000000000"
    by code_simp
  have a3': "TrimSpace ''Mon, 01 Jan 2024 10:00:30 GMT'' \<noteq> [] \<and>
             Atoi (TrimSpace ''Mon, 01 Jan 2024 10:00:30 GMT'') = None" by code_simp
  have a4: "Parse_RFC1123 ex_timelib (TrimSpace ''Mon, 01 Jan 2024 09:00:00 GMT'') = Some 1704099600000000000"
    by code_simp
  have a4': "Atoi (TrimSpace ''Mon, 01 Jan 2024 09:00:00 GMT'') = None" by code_simp
  have a5: "Atoi (TrimSpace ''-5'') = Some (- 5)" by code_simp
  have a5': "Parse_RFC1123 ex_timelib (TrimSpace ''-5'') = None" by code_simp
  have a6: "Atoi (TrimSpace ''soon'') = None" by code_simp
  have a6': "Parse_RFC1123 ex_timelib (TrimSpace ''soon'') = None" by code_simp
  have d: "seconds 120 = 120000000000" using T [of "[]"] by simp
  have c1: "parseRetryAfter ex_timelib 1704103200000000000 '' 3 '' 120 = 3000000000"
    using T [of "'' 3 ''"] a1 by simp
  have c2: "parseRetryAfter ex_timelib 1704103200000000000 [] 120 = 120000000000"
    using T [of "[]"] a2 d by simp
  have c3: "parseRetryAfter ex_timelib 1704103200000000000 ''Mon, 01 Jan 2024 10:00:30 GMT'' 120 = 30000000000"
    using T [of "''Mon, 01 Jan 2024 10:00:30 GMT''"] a3 a3' by (simp add: maxDuration_def)
  have c4: "parseRetryAfter ex_timelib 1704103200000000000 ''Mon, 01 Jan 2024 09:00:00 GMT'' 120 = 120000000000"
    using T [of "''Mon, 01 Jan 2024 09:00:00 GMT''"] a4 a4' d by simp
  have c5: "parseRetryAfter ex_timelib 1704103200000000000 ''-5'' 120 = 120000000000"
    using T [of "''-5''"] a5 a5' d by simp
  have c6: "parseRetryAfter ex_timelib 1704103200000000000 ''soon'' 120 = 120000000000"
    using T [of "''soon''"] a6 a6' d by simp
  show ?thesis using a1 a2 a3 a4 a5 a5' a6 a6' c1 c2 c3 c4 c5 c6 by simp
qed


section \<open>The sitemap parser\<close>

text \<open>
  The parser never reports an error, and a document that neither decoder accepts gives
  two empty lists.
\<close>

lemma parseSitemapXML_no_error: "snd (snd (parseSitemapXML X data)) = None"
  by (simp add: parseSitemapXML_def Let_def split: sum.splits)

lemma parseSitemapXML_malformed:
  "Unmarshal_SitemapIndexRoot X data = Inl e1 \<Longrightarrow> Unmarshal_Sitemap X data = Inl e2 \<Longrightarrow>
   parseSitemapXML X data = ([], [], None)"
  by (simp add: parseSitemapXML_def)

text \<open>
  Claim C8.  The claim is that the parser returns only values that are trimmed and
  not empty.  The code tests \<^verbatim>\<open>Loc != ""\<close> before it trims: a \<^verbatim>\<open><loc>\<close> that holds white
  space only passes the test and is returned as the empty string.
\<close>

theorem parseSitemapXML_blank_loc:
  "parseSitemapXML ex_xmllib ex_blank_loc_doc = ([], ['''', ''https://x/1''], None)"
  by code_simp


section \<open>The sitemap collector\<close>

lemma mark_sitemap_fields [simp]:
  "seenSitemaps (mark_sitemap L now c u e) = seenSitemaps c"
  "fetched (mark_sitemap L now c u e) = fetched c"
  by (auto simp: mark_sitemap_def split: sum.splits)

lemma mark_sitemap_log_ok [simp]: "fetch_log_ok (mark_sitemap L now c u e) = fetch_log_ok c"
  by (simp add: fetch_log_ok_def)

lemma fetch_log_ok_step:
  assumes "fetch_log_ok c" and "u \<notin> seenSitemaps c"
  shows "fetch_log_ok
           (c\<lparr>seenSitemaps := insert u (seenSitemaps c),
              fetched := fetched c @ [(u, insert u (seenSitemaps c))]\<rparr>)"
  using assms by (auto simp: fetch_log_ok_def)

lemma grows_refl: "grows {} c c"
  by (simp add: grows_def)

lemma grows_trans: "grows A c c' \<Longrightarrow> grows B c' c'' \<Longrightarrow> grows A c c''"
  by (auto simp: grows_def)

lemma collect_grows:
  "collectURLsFromSitemap n L X W c u = Some (r, c') \<Longrightarrow> grows {u} c c'"
  "collect_children n L X W c cs acc = Some (r, c') \<Longrightarrow> grows {} c c'"
proof (induction n L X W c u and n L X W c cs acc arbitrary: r c' and r c'
       rule: collectURLsFromSitemap_collect_children.induct)
  case (1 L X W c sitemapURL)
  then show ?case by simp
next
  case (2 n L X W c sitemapURL)
  show ?case
  proof (cases "sitemapURL \<in> seenSitemaps c")
    case True
    with "2.prems" show ?thesis by (auto simp: grows_def)
  next
    case False
    let ?c1 = "c\<lparr>seenSitemaps := insert sitemapURL (seenSitemaps c)\<rparr>"
    let ?k = "length (fetched ?c1)"
    let ?c2 = "?c1\<lparr>fetched := fetched ?c1 @ [(sitemapURL, seenSitemaps ?c1)]\<rparr>"
    have step: "grows {sitemapURL} c ?c2"
      using fetch_log_ok_step [of c sitemapURL] False by (auto simp: grows_def)
    show ?thesis
    proof (cases "fetchBytes W ?k sitemapURL")
      case (Inl err)
      with "2.prems" False have "c' = mark_sitemap L (clock W (Suc ?k)) ?c2 sitemapURL err"
        by (simp add: Let_def)
      with step show ?thesis by (simp add: grows_def)
    next
      case (Inr data)
      obtain childSitemaps urls e where p: "parseSitemapXML X data = (childSitemaps, urls, e)"
        by (cases "parseSitemapXML X data") auto
      show ?thesis
      proof (cases e)
        case None
        let ?c3 = "mark_sitemap L (clock W (Suc ?k)) ?c2 sitemapURL []"
        from "2.prems" False Inr p None
        have run: "collect_children n L X W ?c3 childSitemaps urls = Some (r, c')"
          by (simp add: Let_def)
        have "grows {} ?c3 c'"
          using "2.IH" [OF False refl refl refl Inr p [symmetric] refl None run] .
        moreover have "grows {sitemapURL} c ?c3" using step by (simp add: grows_def)
        ultimately show ?thesis by (rule grows_trans [rotated])
      next
        case (Some x)
        with "2.prems" False Inr p
        have "c' = mark_sitemap L (clock W (Suc ?k)) ?c2 sitemapURL ''XML syntax error''"
          by (cases x) (simp add: Let_def)
        with step show ?thesis by (simp add: grows_def)
      qed
    qed
  qed
next
  case (3 n L X W c collected)
  then show ?case by (simp add: grows_def)
next
  case (4 n L X W c child rest collected)
  show ?case
  proof (cases "ctx_done W (length (fetched c))")
    case True
    with "4.prems" show ?thesis by (simp add: grows_def)
  next
    case False
    from "4.prems" False obtain childURLs err c1 where
      one: "collectURLsFromSitemap n L X W c child = Some ((childURLs, err), c1)"
      by (auto split: option.splits prod.splits)
    have g1: "grows {child} c c1" using "4.IH"(1) [OF False one] .
    show ?thesis
    proof (cases err)
      case None
      with "4.prems" False one
      have "collect_children n L X W c1 rest (collected @ childURLs) = Some (r, c')" by simp
      from "4.IH"(2) [OF False one refl refl None this] g1
      show ?thesis by (auto simp: grows_def)
    next
      case (Some x)
      with "4.prems" False one
      have "collect_children n L X W c1 rest collected = Some (r, c')" by simp
      from "4.IH"(3) [OF False one refl refl Some this] g1
      show ?thesis by (auto simp: grows_def)
    qed
  qed
qed

lemma card_unvisited_mono:
  "finite F \<Longrightarrow> S \<subseteq> S' \<Longrightarrow> card (F - S') \<le> card (F - S)"
  by (rule card_mono) auto

lemma card_unvisited_insert:
  assumes "finite F" and "u \<in> F" and "u \<notin> S" and "card (F - S) < Suc n"
  shows "card (F - insert u S) < n"
proof -
  have "F - insert u S \<subset> F - S" using assms(2,3) by auto
  then have "card (F - insert u S) < card (F - S)"
    using assms(1) by (intro psubset_card_mono) auto
  with assms(4) show ?thesis by simp
qed

text \<open>
  When only the URLs of a finite set \<open>F\<close> can be fetched with success, fuel above the
  number of those not yet visited is enough: every level of the recursion below a
  successful fetch has one more of them visited.
\<close>

lemma collect_returns:
  "finite F \<Longrightarrow> \<forall>k u data. fetchBytes W k u = Inr data \<longrightarrow> u \<in> F \<Longrightarrow>
   card (F - seenSitemaps c) < n \<Longrightarrow> collectURLsFromSitemap n L X W c u \<noteq> None"
  "finite F \<Longrightarrow> \<forall>k u data. fetchBytes W k u = Inr data \<longrightarrow> u \<in> F \<Longrightarrow>
   card (F - seenSitemaps c) < n \<Longrightarrow> collect_children n L X W c cs acc \<noteq> None"
proof (induction n L X W c u and n L X W c cs acc
       rule: collectURLsFromSitemap_collect_children.induct)
  case (1 L X W c sitemapURL)
  then show ?case by simp
next
  case (2 n L X W c sitemapURL)
  show ?case
  proof (cases "sitemapURL \<in> seenSitemaps c")
    case True
    then show ?thesis by simp
  next
    case False
    let ?c1 = "c\<lparr>seenSitemaps := insert sitemapURL (seenSitemaps c)\<rparr>"
    let ?k = "length (fetched ?c1)"
    let ?c2 = "?c1\<lparr>fetched := fetched ?c1 @ [(sitemapURL, seenSitemaps ?c1)]\<rparr>"
    show ?thesis
    proof (cases "fetchBytes W ?k sitemapURL")
      case (Inl err)
      with False show ?thesis by (simp add: Let_def)
    next
      case (Inr data)
      obtain childSitemaps urls e where p: "parseSitemapXML X data = (childSitemaps, urls, e)"
        by (cases "parseSitemapXML X data") auto
      show ?thesis
      proof (cases e)
        case None
        let ?c3 = "mark_sitemap L (clock W (Suc ?k)) ?c2 sitemapURL []"
        have "sitemapURL \<in> F" using "2.prems"(2) Inr by blast
        then have "card (F - seenSitemaps ?c3) < n"
          using card_unvisited_insert [OF "2.prems"(1) _ False "2.prems"(3)] by simp
        from "2.IH" [OF False refl refl refl Inr p [symmetric] refl None "2.prems"(1,2) this]
        show ?thesis using False Inr p None by (simp add: Let_def)
      next
        case (Some x)
        with False Inr p show ?thesis by (cases x) (simp add: Let_def)
      qed
    qed
  qed
next
  case (3 n L X W c collected)
  then show ?case by simp
next
  case (4 n L X W c child rest collected)
  show ?case
  proof (cases "ctx_done W (length (fetched c))")
    case True
    then show ?thesis by simp
  next
    case False
    from "4.IH"(1) [OF False "4.prems"]
    obtain childURLs err c1 where
      one: "collectURLsFromSitemap n L X W c child = Some ((childURLs, err), c1)"
      by (cases "collectURLsFromSitemap n L X W c child") auto
    have "seenSitemaps c \<subseteq> seenSitemaps c1"
      using collect_grows(1) [OF one] by (simp add: grows_def)
    then have less: "card (F - seenSitemaps c1) < n"
      using card_unvisited_mono [OF "4.prems"(1)] "4.prems"(3) by (meson le_less_trans)
    show ?thesis
    proof (cases err)
      case None
      from "4.IH"(2) [OF False one refl refl None "4.prems"(1,2) less]
      show ?thesis using False one None by simp
    next
      case (Some x)
      from "4.IH"(3) [OF False one refl refl Some "4.prems"(1,2) less]
      show ?thesis using False one Some by simp
    qed
  qed
qed

lemma collect_seeds_grows:
  "collect_seeds n L X W c seeds acc = Some (r, c') \<Longrightarrow> grows {} c c'"
proof (induction seeds arbitrary: c acc)
  case Nil
  then show ?case by (simp add: grows_def)
next
  case (Cons sm rest)
  show ?case
  proof (cases "ctx_done W (length (fetched c))")
    case True
    with Cons.prems show ?thesis by (simp add: grows_def)
  next
    case False
    with Cons.prems obtain urls err c1 where
      one: "collectURLsFromSitemap n L X W c sm = Some ((urls, err), c1)"
      and more: "collect_seeds n L X W c1 rest (acc @ urls) = Some (r, c')"
      by (auto split: option.splits prod.splits)
    from collect_grows(1) [OF one] Cons.IH [OF more]
    show ?thesis by (auto simp: grows_def)
  qed
qed

lemma collect_seeds_returns:
  assumes F: "finite F" "\<forall>k u data. fetchBytes W k u = Inr data \<longrightarrow> u \<in> F"
  shows "card (F - seenSitemaps c) < n \<Longrightarrow> collect_seeds n L X W c seeds acc \<noteq> None"
proof (induction seeds arbitrary: c acc)
  case Nil
  then show ?case by simp
next
  case (Cons sm rest)
  show ?case
  proof (cases "ctx_done W (length (fetched c))")
    case True
    then show ?thesis by simp
  next
    case False
    have "collectURLsFromSitemap n L X W c sm \<noteq> None"
      using F Cons.prems by (rule collect_returns(1))
    then obtain urls err c1 where
      one: "collectURLsFromSitemap n L X W c sm = Some ((urls, err), c1)"
      by (cases "collectURLsFromSitemap n L X W c sm") auto
    have "seenSitemaps c \<subseteq> seenSitemaps c1"
      using collect_grows(1) [OF one] by (simp add: grows_def)
    then have "card (F - seenSitemaps c1) < n"
      using card_unvisited_mono [OF F(1)] Cons.prems by (meson le_less_trans)
    from Cons.IH [OF this] show ?thesis using False one by simp
  qed
qed

text \<open>
  Claim C9.  A call for a sitemap that is in the visited set returns the empty list and
  leaves the state, and so the log of fetches, as it is.  Every call leaves its sitemap
  in the visited set and keeps the log in order: no URL fetched twice, every URL in the
  visited set when its fetch was made.  The log of a whole run, which starts from the
  empty visited set, is in order.  And when only the URLs of a finite set can be
  fetched with success, the collector returns, however the sitemaps refer to each
  other, given fuel above the number of those URLs that are not yet visited.
\<close>

theorem collector_visits_once:
  "(sitemapURL \<in> seenSitemaps c \<longrightarrow>
      collectURLsFromSitemap (Suc n) L X W c sitemapURL = Some (([], None), c)) \<and>
   (\<forall>r c'. collectURLsFromSitemap n L X W c sitemapURL = Some (r, c') \<longrightarrow>
      sitemapURL \<in> seenSitemaps c' \<and> seenSitemaps c \<subseteq> seenSitemaps c' \<and>
      (fetch_log_ok c \<longrightarrow> fetch_log_ok c')) \<and>
   (\<forall>r c'. runOnce_collect n L X W w seeds = Some (r, c') \<longrightarrow> fetch_log_ok c') \<and>
   (finite F \<and> (\<forall>k u data. fetchBytes W k u = Inr data \<longrightarrow> u \<in> F) \<longrightarrow>
      (card (F - seenSitemaps c) < n \<longrightarrow> collectURLsFromSitemap n L X W c sitemapURL \<noteq> None) \<and>
      (card F < n \<longrightarrow> runOnce_collect n L X W w seeds \<noteq> None))"
proof -
  have a: "sitemapURL \<in> seenSitemaps c \<longrightarrow>
      collectURLsFromSitemap (Suc n) L X W c sitemapURL = Some (([], None), c)" by simp
  have b: "\<forall>r c'. collectURLsFromSitemap n L X W c sitemapURL = Some (r, c') \<longrightarrow>
      sitemapURL \<in> seenSitemaps c' \<and> seenSitemaps c \<subseteq> seenSitemaps c' \<and>
      (fetch_log_ok c \<longrightarrow> fetch_log_ok c')"
    using collect_grows(1) [of n L X W c sitemapURL] by (auto simp: grows_def)
  have ok0: "fetch_log_ok \<lparr>seenSitemaps = {}, db = w, fetched = []\<rparr>"
    by (simp add: fetch_log_ok_def)
  have c: "\<forall>r c'. runOnce_collect n L X W w seeds = Some (r, c') \<longrightarrow> fetch_log_ok c'"
    using collect_seeds_grows [of n L X W "\<lparr>seenSitemaps = {}, db = w, fetched = []\<rparr>" seeds "[]"] ok0
    by (auto simp: runOnce_collect_def grows_def)
  have d: "collectURLsFromSitemap n L X W c sitemapURL \<noteq> None"
    if "finite F" "\<forall>k u data. fetchBytes W k u = Inr data \<longrightarrow> u \<in> F"
       "card (F - seenSitemaps c) < n"
    using collect_returns(1) [of F W c n L X sitemapURL] that by blast
  have e: "runOnce_collect n L X W w seeds \<noteq> None"
    if "finite F" "\<forall>k u data. fetchBytes W k u = Inr data \<longrightarrow> u \<in> F" "card F < n"
    using collect_seeds_returns [of F W "\<lparr>seenSitemaps = {}, db = w, fetched = []\<rparr>" n L X seeds "[]"] that
    by (simp add: runOnce_collect_def)
  from a b c d e show ?thesis by blast
qed

theorem collector_visits_once_witness:
  "''https://x/a.xml'' \<in> seenSitemaps ex_visited \<and>
   collectURLsFromSitemap (Suc 0) ex_timelib ex_xmllib ex_world ex_visited ''https://x/a.xml'' =
     Some (([], None), ex_visited) \<and>
   finite {''https://x/a.xml'', ''https://x/b.xml''} \<and>
   card {''https://x/a.xml'', ''https://x/b.xml''} < (3::nat) \<and>
   runOnce_collect 3 ex_timelib ex_xmllib ex_world emptyDB
      [''https://x/a.xml'', ''https://x/c.xml'', ''https://x/a.xml''] \<noteq> None \<and>
   map_option (\<lambda>(r, c'). (r, map fst (fetched c')))
     (runOnce_collect 3 ex_timelib ex_xmllib ex_world emptyDB
        [''https://x/a.xml'', ''https://x/c.xml'', ''https://x/a.xml'']) =
     Some (Inr [''https://x/1''], [''https://x/a.xml'', ''https://x/b.xml'', ''https://x/c.xml'']) \<and>
   (\<exists>r c'. runOnce_collect 3 ex_timelib ex_xmllib ex_world emptyDB
        [''https://x/a.xml'', ''https://x/c.xml'', ''https://x/a.xml''] = Some (r, c') \<and>
      fetch_log_ok c')"
proof -
  let ?F = "{''https://x/a.xml'', ''https://x/b.xml''}"
  let ?run = "runOnce_collect 3 ex_timelib ex_xmllib ex_world emptyDB
      [''https://x/a.xml'', ''https://x/c.xml'', ''https://x/a.xml'']"
  have h0: "''https://x/a.xml'' \<in> seenSitemaps ex_visited" by (simp add: ex_visited_def)
  have h1: "finite ?F" by simp
  have h2: "\<forall>k u data. fetchBytes ex_world k u = Inr data \<longrightarrow> u \<in> ?F"
    by (simp add: ex_world_def)
  have h3: "card ?F < (3::nat)" by simp
  have seen: "collectURLsFromSitemap (Suc 0) ex_timelib ex_xmllib ex_world ex_visited
      ''https://x/a.xml'' = Some (([], None), ex_visited)"
    using collector_visits_once [of "''https://x/a.xml''" ex_visited 0 ex_timelib ex_xmllib ex_world]
      h0 by blast
  note T = collector_visits_once [of _ _ 3 ex_timelib ex_xmllib ex_world emptyDB
      "[''https://x/a.xml'', ''https://x/c.xml'', ''https://x/a.xml'']" ?F]
  have ret: "?run \<noteq> None" using T h1 h2 h3 by blast
  then obtain r c' where rc: "?run = Some (r, c')" by (cases ?run) auto
  then have ok: "fetch_log_ok c'" using T by blast
  have val: "map_option (\<lambda>(r, c'). (r, map fst (fetched c'))) ?run =
     Some (Inr [''https://x/1''], [''https://x/a.xml'', ''https://x/b.xml'', ''https://x/c.xml''])"
    by code_simp
  show ?thesis using h0 seen h1 h3 ret val rc ok by blast
qed

end
